theory Spec2Isabelle
  imports Main
begin

section \<open>The game of Snake: data model\<close>

text \<open>
  Embedding of \<^verbatim>\<open>gym_snake/envs/snake_env.py\<close>. A position is a Python tuple
  \<^verbatim>\<open>(x, y)\<close> of integers, modelled as a pair of \<open>int\<close>s; where numpy computes
  on 64-bit integers the wrap-around is written out.
\<close>

type_synonym pos = "int \<times> int"

text \<open>The exceptions the modelled code can raise.\<close>

datatype error = ValueError | IndexError

text \<open>\<^verbatim>\<open>_DIRS\<close>: Right, Up, Left, Down.\<close>

definition DIRS :: "pos list" where
  "DIRS = [(1, 0), (0, -1), (-1, 0), (0, 1)]"

text \<open>
  The attributes of a \<^verbatim>\<open>Game\<close> object. \<^verbatim>\<open>_dims\<close> is handed to
  \<^verbatim>\<open>np.zeros\<close>, which accepts non-negative integers only.
\<close>

record game =
  dims :: "nat \<times> nat"
  snake :: "pos list"
  dir :: pos
  apple :: pos

text \<open>
  A numpy array of shape \<^verbatim>\<open>_dims\<close> as a list of rows; the cell codes
  \<open>0., 1., 2., 3.\<close> are kept as naturals.
\<close>

type_synonym board = "nat list list"

definition zeros :: "nat \<times> nat \<Rightarrow> board" where
  "zeros d = replicate (fst d) (replicate (snd d) 0)"

text \<open>
  numpy indexing along an axis of size \<open>n\<close>: a negative index counts from the
  end, anything outside \<open>[-n, n)\<close> raises \<^verbatim>\<open>IndexError\<close>.
\<close>

definition np_index :: "nat \<Rightarrow> int \<Rightarrow> nat option" where
  "np_index n i =
     (if 0 \<le> i \<and> i < int n then Some (nat i)
      else if - int n \<le> i \<and> i < 0 then Some (nat (i + int n))
      else None)"

text \<open>The assignment \<^verbatim>\<open>board[r, c] = v\<close>.\<close>

definition board_set :: "board \<Rightarrow> int \<Rightarrow> int \<Rightarrow> nat \<Rightarrow> error + board" where
  "board_set b r c v =
     (case np_index (length b) r of
        None \<Rightarrow> Inl IndexError
      | Some i \<Rightarrow>
          (case np_index (length (b ! i)) c of
             None \<Rightarrow> Inl IndexError
           | Some j \<Rightarrow> Inr (b[i := (b ! i)[j := v]])))"

text \<open>Python's lexicographic order on pairs, as in \<^verbatim>\<open>(x, y) < (0, 0)\<close>.\<close>

fun tuple_less :: "pos \<Rightarrow> pos \<Rightarrow> bool" where
  "tuple_less (a, b) (c, d) = (a < c \<or> (a = c \<and> b < d))"

text \<open>The dummy piece that \<^verbatim>\<open>Game.step\<close> prepends after an apple is eaten.\<close>

definition sentinel :: pos where
  "sentinel = (-100, -100)"

text \<open>
  \<^verbatim>\<open>np.random.randint(low, high)\<close>: raises \<^verbatim>\<open>ValueError\<close> when the range
  \<open>[low, high)\<close> is empty and otherwise yields some member of it. The last
  argument is the raw output of the random source; every member of the range is
  the outcome for some raw output, and no other value is.
\<close>

definition randint :: "int \<Rightarrow> int \<Rightarrow> nat \<Rightarrow> error + int" where
  "randint low high raw =
     (if high \<le> low then Inl ValueError
      else Inr (low + int raw mod (high - low)))"

text \<open>
  \<^verbatim>\<open>np.add\<close> on tuples of integers: numpy turns both into arrays of 64-bit
  signed integers and adds them elementwise, wrapping around in two's complement
  without an error. \<open>int64\<close> says that a value is one that such an array holds;
  the model of the sum is for operands of this kind.
\<close>

definition int64 :: "int \<Rightarrow> bool" where
  "int64 a = (- (2 ^ 63) \<le> a \<and> a < 2 ^ 63)"

definition int64_wrap :: "int \<Rightarrow> int" where
  "int64_wrap a = (a + 2 ^ 63) mod 2 ^ 64 - 2 ^ 63"

definition np_add :: "int \<Rightarrow> int \<Rightarrow> int" where
  "np_add a b = int64_wrap (a + b)"

text \<open>
  The remainder of numpy integer arrays: the sign follows the divisor, and a
  zero divisor yields \<open>0\<close>.
\<close>

definition np_mod :: "int \<Rightarrow> nat \<Rightarrow> int" where
  "np_mod a n = (if n = 0 then 0 else a mod int n)"

section \<open>The class Game\<close>

text \<open>
  The loop of \<^verbatim>\<open>_generate_board_with_snake_only\<close> over \<^verbatim>\<open>self.snake[:-1]\<close>.
\<close>

fun mark_body :: "board \<Rightarrow> pos list \<Rightarrow> error + board" where
  "mark_body b [] = Inr b"
| "mark_body b ((x, y) # ps) =
     (if tuple_less (x, y) (0, 0) then mark_body b ps
      else (case board_set b y x 1 of
              Inl e \<Rightarrow> Inl e
            | Inr b' \<Rightarrow> mark_body b' ps))"

text \<open>
  \<^verbatim>\<open>_generate_board_with_snake_only\<close> reads \<^verbatim>\<open>_dims\<close> and \<^verbatim>\<open>snake\<close> only
  (the constructor calls it, through \<^verbatim>\<open>_generate_apple\<close>, before the apple
  exists), so these two attributes are its arguments. \<^verbatim>\<open>self.snake[-1]\<close> raises
  \<^verbatim>\<open>IndexError\<close> on an empty list.
\<close>

definition generate_board_with_snake_only :: "nat \<times> nat \<Rightarrow> pos list \<Rightarrow> error + board" where
  "generate_board_with_snake_only d s =
     (case mark_body (zeros d) (butlast s) of
        Inl e \<Rightarrow> Inl e
      | Inr b \<Rightarrow>
          (if s = [] then Inl IndexError
           else board_set b (snd (last s)) (fst (last s)) 2))"

text \<open>
  \<^verbatim>\<open>np.where(board == 0)\<close>: the (row, column) pairs of the zero cells in
  row-major order.
\<close>

definition where_zero :: "board \<Rightarrow> (nat \<times> nat) list" where
  "where_zero b =
     concat (map (\<lambda>r. map (\<lambda>c. (r, c)) (filter (\<lambda>c. b ! r ! c = 0) [0..<length (b ! r)]))
                 [0..<length b])"

text \<open>\<^verbatim>\<open>_generate_apple\<close>; the apple is (column, row) of the drawn zero cell.\<close>

definition generate_apple :: "nat \<times> nat \<Rightarrow> pos list \<Rightarrow> nat \<Rightarrow> error + pos" where
  "generate_apple d s raw =
     (case generate_board_with_snake_only d s of
        Inl e \<Rightarrow> Inl e
      | Inr b \<Rightarrow>
          (let empty = where_zero b in
           case randint 0 (int (length empty)) raw of
             Inl e \<Rightarrow> Inl e
           | Inr index \<Rightarrow>
               Inr (int (snd (empty ! nat index)), int (fst (empty ! nat index)))))"

text \<open>\<^verbatim>\<open>generate_board\<close>: the snapshot with the apple drawn last.\<close>

definition generate_board :: "game \<Rightarrow> error + board" where
  "generate_board g =
     (case generate_board_with_snake_only (dims g) (snake g) of
        Inl e \<Rightarrow> Inl e
      | Inr b \<Rightarrow> board_set b (snd (apple g)) (fst (apple g)) 3)"

text \<open>
  The loop \<^verbatim>\<open>for _ in range(1, size)\<close> of \<^verbatim>\<open>_generate_initial_snake\<close>, by the
  number of iterations left.
\<close>

fun extend_snake :: "nat \<Rightarrow> int \<Rightarrow> int \<Rightarrow> pos list \<Rightarrow> pos list" where
  "extend_snake 0 x y s = s"
| "extend_snake (Suc k) x y s = extend_snake k (x + 1) y (s @ [(x + 1, y)])"

text \<open>
  \<^verbatim>\<open>_generate_initial_snake\<close>. The row \<^verbatim>\<open>int(self._dims[1] / 2)\<close> goes through a
  float; it is the integer quotient for every height below \<open>2 ^ 53\<close>, far above
  what \<^verbatim>\<open>np.zeros\<close> can allocate.
\<close>

definition generate_initial_snake :: "nat \<times> nat \<Rightarrow> int \<Rightarrow> nat \<Rightarrow> error + pos list" where
  "generate_initial_snake d snake_size raw =
     (case randint 0 (int (fst d) - snake_size) raw of
        Inl e \<Rightarrow> Inl e
      | Inr x \<Rightarrow>
          (let y = int (snd d div 2)
           in Inr (extend_snake (nat (snake_size - 1)) x y [(x, y)])))"

text \<open>
  The constructor \<^verbatim>\<open>Game(dims, snake_size)\<close>, with one raw random value for
  each of its two draws.
\<close>

definition new_game :: "nat \<times> nat \<Rightarrow> int \<Rightarrow> nat \<Rightarrow> nat \<Rightarrow> error + game" where
  "new_game d snake_size raw1 raw2 =
     (case generate_initial_snake d snake_size raw1 of
        Inl e \<Rightarrow> Inl e
      | Inr s \<Rightarrow>
          (case generate_apple d s raw2 of
             Inl e \<Rightarrow> Inl e
           | Inr a \<Rightarrow> Inr \<lparr>dims = d, snake = s, dir = (1, 0), apple = a\<rparr>))"

text \<open>
  \<^verbatim>\<open>tuple(np.add(self.snake[-1], self.dir) % self._dims)\<close>, for a non-empty
  snake.
\<close>

definition new_head :: "game \<Rightarrow> pos" where
  "new_head g =
     (np_mod (np_add (fst (last (snake g))) (fst (dir g))) (fst (dims g)),
      np_mod (np_add (snd (last (snake g))) (snd (dir g))) (snd (dims g)))"

text \<open>
  \<^verbatim>\<open>Game.step\<close>. The result is the object after the call together with either
  the exception that left the method or the returned pair
  \<open>(terminated, ate_apple)\<close>. When \<^verbatim>\<open>_generate_apple\<close> raises, the snake has
  already been moved and the apple and the dummy piece have not been assigned.
\<close>

definition game_step :: "game \<Rightarrow> nat \<Rightarrow> game \<times> (error + bool \<times> bool)" where
  "game_step g raw =
     (if snake g = [] then (g, Inl IndexError)
      else if new_head g \<in> set (snake g) then (g, Inr (True, False))
      else
        (let g1 = g\<lparr>snake := tl (snake g) @ [new_head g]\<rparr>
         in if new_head g = apple g
            then (case generate_apple (dims g1) (snake g1) raw of
                    Inl e \<Rightarrow> (g1, Inl e)
                  | Inr a \<Rightarrow>
                      (g1\<lparr>apple := a, snake := sentinel # snake g1\<rparr>, Inr (False, True)))
            else (g1, Inr (False, False))))"

section \<open>The class SnakeEnv\<close>

text \<open>
  The attributes of a \<^verbatim>\<open>SnakeEnv\<close> that the simulation uses (the screen and
  the pixel size belong to rendering).
\<close>

record snake_env =
  env_game :: "game option"
  env_done :: bool
  env_dims :: "nat \<times> nat"

text \<open>What \<^verbatim>\<open>logger.warn\<close> is called with.\<close>

datatype log_event = Warn string

definition terminal_warning :: string where
  "terminal_warning =
     ''The environment has reached a terminal state and should be reset (by calling env.reset())''"

text \<open>
  The tuple \<^verbatim>\<open>(board, reward, done, {})\<close>; the last component is always the
  empty dictionary and is left out.
\<close>

type_synonym observation = "board \<times> int \<times> bool"

text \<open>
  Modelled from the spec: \<^verbatim>\<open>spaces.Discrete(n).contains\<close> belongs to the gym
  library; an integer action is in the space when it is one of \<open>0, ..., n - 1\<close>.
\<close>

definition discrete_contains :: "int \<Rightarrow> int \<Rightarrow> bool" where
  "discrete_contains n a = (0 \<le> a \<and> a < n)"

text \<open>\<^verbatim>\<open>_DIRS.index(d)\<close>, which raises \<^verbatim>\<open>ValueError\<close> when \<open>d\<close> is absent.\<close>

fun index_of :: "pos list \<Rightarrow> pos \<Rightarrow> nat option" where
  "index_of [] d = None"
| "index_of (p # ps) d =
     (if p = d then Some 0
      else (case index_of ps d of None \<Rightarrow> None | Some i \<Rightarrow> Some (Suc i)))"

text \<open>
  Lines 151 to 155 of \<^verbatim>\<open>SnakeEnv.step\<close>: the action is normalised, shifted to
  \<open>-1, 0, 1\<close> and added to the index of the current heading modulo
  \<^verbatim>\<open>len(_DIRS)\<close>.
\<close>

definition turn :: "pos \<Rightarrow> int \<Rightarrow> error + pos" where
  "turn d action =
     (let action = (if \<not> discrete_contains 3 action then 1 else action);
          action = action - 1
      in case index_of DIRS d of
           None \<Rightarrow> Inl ValueError
         | Some i \<Rightarrow>
             (let new_direction = (int i + action) mod int (length DIRS)
              in Inr (DIRS ! nat new_direction)))"

text \<open>Lines 158 to 162: the reward of one step.\<close>

definition reward_of :: "bool \<Rightarrow> bool \<Rightarrow> int" where
  "reward_of done_flag ate_apple =
     (let reward = 0;
          reward = (if ate_apple then 1 else reward);
          reward = (if done_flag then - 100 else reward)
      in reward)"

text \<open>
  \<^verbatim>\<open>SnakeEnv.step\<close>. The result is the environment after the call, the
  diagnostics it logged, and either the exception that left the method or the
  returned value, where \<open>None\<close> is Python's \<^verbatim>\<open>None\<close>.
\<close>

definition env_step ::
  "snake_env \<Rightarrow> int \<Rightarrow> nat \<Rightarrow> snake_env \<times> log_event list \<times> (error + observation option)" where
  "env_step e action raw =
     (if env_done e then (e, [Warn terminal_warning], Inr None)
      else
        (case env_game e of
           None \<Rightarrow> (e, [], Inr None)
         | Some g \<Rightarrow>
             (case turn (dir g) action of
                Inl err \<Rightarrow> (e, [], Inl err)
              | Inr d \<Rightarrow>
                  (case game_step (g\<lparr>dir := d\<rparr>) raw of
                     (g', Inl err) \<Rightarrow> (e\<lparr>env_game := Some g'\<rparr>, [], Inl err)
                   | (g', Inr (done_flag, ate_apple)) \<Rightarrow>
                       (let e' = e\<lparr>env_game := Some g', env_done := done_flag\<rparr>
                        in case generate_board g' of
                             Inl err \<Rightarrow> (e', [], Inl err)
                           | Inr b \<Rightarrow>
                               (e', [], Inr (Some (b, reward_of done_flag ate_apple, done_flag))))))))"

text \<open>
  \<^verbatim>\<open>SnakeEnv.reset\<close> (with \<^verbatim>\<open>_reset\<close> inlined): a fresh game of the default
  snake size 5; nothing is assigned when the constructor raises.
\<close>

definition env_reset ::
  "snake_env \<Rightarrow> nat \<Rightarrow> nat \<Rightarrow> snake_env \<times> (error + observation)" where
  "env_reset e raw1 raw2 =
     (case new_game (env_dims e) 5 raw1 raw2 of
        Inl err \<Rightarrow> (e, Inl err)
      | Inr g \<Rightarrow>
          (let e' = e\<lparr>env_game := Some g, env_done := False\<rparr>
           in case generate_board g of
                Inl err \<Rightarrow> (e', Inl err)
              | Inr b \<Rightarrow> (e', Inr (b, 0, False))))"

text \<open>Calling \<^verbatim>\<open>step\<close> repeatedly; the run stops at the first exception.\<close>

fun env_steps :: "snake_env \<Rightarrow> (int \<times> nat) list \<Rightarrow> snake_env \<times> (error + unit)" where
  "env_steps e [] = (e, Inr ())"
| "env_steps e ((action, raw) # rest) =
     (case env_step e action raw of
        (e', _, Inl err) \<Rightarrow> (e', Inl err)
      | (e', _, Inr _) \<Rightarrow> env_steps e' rest)"

text \<open>
  The heading update of \<^verbatim>\<open>SnakeEnv.step\<close> applied to a sequence of actions,
  stopping at the first exception.
\<close>

fun turns :: "pos \<Rightarrow> int list \<Rightarrow> error + pos" where
  "turns d [] = Inr d"
| "turns d (a # as) = (case turn d a of Inl e \<Rightarrow> Inl e | Inr d' \<Rightarrow> turns d' as)"

section \<open>Predicates on states\<close>

text \<open>A cell of the square \<open>n \<times> n\<close> grid.\<close>

definition in_grid :: "nat \<Rightarrow> pos \<Rightarrow> bool" where
  "in_grid n p = (0 \<le> fst p \<and> fst p < int n \<and> 0 \<le> snd p \<and> snd p < int n)"

text \<open>An array of shape \<open>(n, n)\<close>.\<close>

definition rect :: "nat \<Rightarrow> board \<Rightarrow> bool" where
  "rect n b = (length b = n \<and> (\<forall>r<n. length (b ! r) = n))"

text \<open>
  The snakes that the constructor and \<^verbatim>\<open>Game.step\<close> produce on a square grid:
  the head is a cell of the grid and every other segment is a cell of the grid
  or the dummy piece.
\<close>

definition snake_ok :: "nat \<Rightarrow> pos list \<Rightarrow> bool" where
  "snake_ok n s =
     (s \<noteq> [] \<and> in_grid n (last s) \<and> (\<forall>p \<in> set (butlast s). in_grid n p \<or> p = sentinel))"



section \<open>Example states\<close>

text \<open>
  The game after \<^verbatim>\<open>reset\<close> when both random draws yield their smallest value,
  and the environment that holds it.
\<close>

definition g_reset :: game where
  "g_reset = \<lparr>dims = (10, 10), snake = [(0, 5), (1, 5), (2, 5), (3, 5), (4, 5)],
               dir = (1, 0), apple = (0, 0)\<rparr>"

definition env_fresh :: snake_env where
  "env_fresh = \<lparr>env_game = Some g_reset, env_done = False, env_dims = (10, 10)\<rparr>"

definition board_fresh :: board where
  "board_fresh =
     [[3, 0, 0, 0, 0, 0, 0, 0, 0, 0], [0, 0, 0, 0, 0, 0, 0, 0, 0, 0],
      [0, 0, 0, 0, 0, 0, 0, 0, 0, 0], [0, 0, 0, 0, 0, 0, 0, 0, 0, 0],
      [0, 0, 0, 0, 0, 0, 0, 0, 0, 0], [1, 1, 1, 1, 2, 0, 0, 0, 0, 0],
      [0, 0, 0, 0, 0, 0, 0, 0, 0, 0], [0, 0, 0, 0, 0, 0, 0, 0, 0, 0],
      [0, 0, 0, 0, 0, 0, 0, 0, 0, 0], [0, 0, 0, 0, 0, 0, 0, 0, 0, 0]]"

text \<open>The same snake with the apple right in front of the head, and the state after eating it.\<close>

definition g_eat :: game where
  "g_eat = \<lparr>dims = (10, 10), snake = [(0, 5), (1, 5), (2, 5), (3, 5), (4, 5)],
             dir = (1, 0), apple = (5, 5)\<rparr>"

definition env_eat :: snake_env where
  "env_eat = \<lparr>env_game = Some g_eat, env_done = False, env_dims = (10, 10)\<rparr>"

definition g_eaten :: game where
  "g_eaten = \<lparr>dims = (10, 10), snake = [(- 100, - 100), (1, 5), (2, 5), (3, 5), (4, 5), (5, 5)],
               dir = (1, 0), apple = (0, 0)\<rparr>"


definition board_eaten :: board where
  "board_eaten =
     [[3, 0, 0, 0, 0, 0, 0, 0, 0, 0], [0, 0, 0, 0, 0, 0, 0, 0, 0, 0],
      [0, 0, 0, 0, 0, 0, 0, 0, 0, 0], [0, 0, 0, 0, 0, 0, 0, 0, 0, 0],
      [0, 0, 0, 0, 0, 0, 0, 0, 0, 0], [0, 1, 1, 1, 1, 2, 0, 0, 0, 0],
      [0, 0, 0, 0, 0, 0, 0, 0, 0, 0], [0, 0, 0, 0, 0, 0, 0, 0, 0, 0],
      [0, 0, 0, 0, 0, 0, 0, 0, 0, 0], [0, 0, 0, 0, 0, 0, 0, 0, 0, 0]]"

text \<open>
  The environment two right turns after \<open>env_fresh\<close>, and the terminated one
  that the third right turn leaves.
\<close>

definition g_pre_crash :: game where
  "g_pre_crash = \<lparr>dims = (10, 10), snake = [(2, 5), (3, 5), (4, 5), (4, 6), (3, 6)],
                   dir = (- 1, 0), apple = (0, 0)\<rparr>"

definition env_pre_crash :: snake_env where
  "env_pre_crash = \<lparr>env_game = Some g_pre_crash, env_done = False, env_dims = (10, 10)\<rparr>"

definition env_crashed :: snake_env where
  "env_crashed =
     \<lparr>env_game = Some (g_pre_crash\<lparr>dir := (0, - 1)\<rparr>), env_done = True, env_dims = (10, 10)\<rparr>"

definition board_crashed :: board where
  "board_crashed =
     [[3, 0, 0, 0, 0, 0, 0, 0, 0, 0], [0, 0, 0, 0, 0, 0, 0, 0, 0, 0],
      [0, 0, 0, 0, 0, 0, 0, 0, 0, 0], [0, 0, 0, 0, 0, 0, 0, 0, 0, 0],
      [0, 0, 0, 0, 0, 0, 0, 0, 0, 0], [0, 0, 1, 1, 1, 0, 0, 0, 0, 0],
      [0, 0, 0, 2, 1, 0, 0, 0, 0, 0], [0, 0, 0, 0, 0, 0, 0, 0, 0, 0],
      [0, 0, 0, 0, 0, 0, 0, 0, 0, 0], [0, 0, 0, 0, 0, 0, 0, 0, 0, 0]]"

text \<open>A closed loop of six segments whose head is about to move onto the tail.\<close>

definition g_tail :: game where
  "g_tail = \<lparr>dims = (10, 10), snake = [(0, 0), (1, 0), (2, 0), (2, 1), (1, 1), (0, 1)],
              dir = (0, - 1), apple = (5, 5)\<rparr>"

text \<open>A snake whose head is on the right edge, heading Right.\<close>

definition g_edge :: game where
  "g_edge = \<lparr>dims = (10, 10), snake = [(5, 5), (6, 5), (7, 5), (8, 5), (9, 5)],
              dir = (1, 0), apple = (3, 3)\<rparr>"

text \<open>
  A game \<^verbatim>\<open>Game(dims=(2, 2), snake_size=1)\<close> after three apples in a row: the
  fourth apple is on the only free cell, in front of the head.
\<close>

definition g_full :: game where
  "g_full = \<lparr>dims = (2, 2), snake = [(- 100, - 100), (0, 0), (1, 0), (1, 1)],
              dir = (- 1, 0), apple = (0, 1)\<rparr>"

text \<open>
  A game on a grid of width 4 and height 2. \<open>g_wide_start\<close> is what
  \<^verbatim>\<open>Game(dims=(4, 2), snake_size=2)\<close> returns when the first draw yields 0 and the
  second 1; \<open>g_wide\<close> is the game after one step to the right and one step up,
  heading Left, with the apple in front of the head.
\<close>

definition g_wide_start :: game where
  "g_wide_start = \<lparr>dims = (4, 2), snake = [(0, 1), (1, 1)], dir = (1, 0), apple = (1, 0)\<rparr>"

definition g_wide :: game where
  "g_wide = \<lparr>dims = (4, 2), snake = [(2, 1), (2, 0)], dir = (- 1, 0), apple = (1, 0)\<rparr>"

text \<open>A cell of the grid of width \<open>w\<close> and height \<open>h\<close>.\<close>

definition in_grid_wh :: "nat \<Rightarrow> nat \<Rightarrow> pos \<Rightarrow> bool" where
  "in_grid_wh w h p = (0 \<le> fst p \<and> fst p < int w \<and> 0 \<le> snd p \<and> snd p < int h)"

section \<open>Game.step: collision, wraparound and length\<close>

lemma game_step_dir: "dir (fst (game_step g raw)) = dir g"
  by (simp add: game_step_def Let_def split: sum.splits)

lemma np_mod_pos: "0 < n \<Longrightarrow> np_mod a n = a mod int n"
  by (simp add: np_mod_def)

lemma int64_wrap_id: "int64 a \<Longrightarrow> int64_wrap a = a"
  by (simp add: int64_def int64_wrap_def)

lemma np_add_exact: "int64 (a + b) \<Longrightarrow> np_add a b = a + b"
  by (simp add: np_add_def int64_wrap_id)



text \<open>
  C1. \<^verbatim>\<open>Game.step\<close> tests the wrapped new head for membership in the whole snake
  as it is before the move, tail included. When the new head is a member, the
  call returns (terminated = True, ate_apple = False) and the game is returned
  as it was: snake, heading and apple are unchanged. In particular this happens
  when the new head is the cell of the tail (the first element), although the tail
  would leave that cell in this very step. When the new head is not a member, the
  step does not report termination.
\<close>

theorem step_self_collision:
  assumes "snake g \<noteq> []"
  shows "(new_head g \<in> set (snake g) \<longrightarrow> game_step g raw = (g, Inr (True, False)))
       \<and> (new_head g = hd (snake g) \<longrightarrow> game_step g raw = (g, Inr (True, False)))
       \<and> (new_head g \<notin> set (snake g) \<longrightarrow>
            snd (game_step g raw) \<noteq> Inr (True, False) \<and> snd (game_step g raw) \<noteq> Inr (True, True))"
proof -
  have "hd (snake g) \<in> set (snake g)" using assms by simp
  then show ?thesis using assms
    by (auto simp: game_step_def Let_def split: sum.splits)
qed

theorem step_self_collision_witness:
  "snake g_tail \<noteq> [] \<and> new_head g_tail = hd (snake g_tail)
   \<and> new_head g_tail \<in> set (snake g_tail)
   \<and> game_step g_tail 0 = (g_tail, Inr (True, False))
   \<and> snake g_eat \<noteq> [] \<and> new_head g_eat \<notin> set (snake g_eat)
   \<and> snd (game_step g_eat 0) \<noteq> Inr (True, False)"
proof -
  have t: "snake g_tail \<noteq> []" by (simp add: g_tail_def)
  have th: "new_head g_tail = hd (snake g_tail)"
    by (simp add: g_tail_def new_head_def np_mod_def np_add_def int64_wrap_def)
  have tm: "new_head g_tail \<in> set (snake g_tail)"
    by (simp add: g_tail_def new_head_def np_mod_def np_add_def int64_wrap_def)
  have e: "snake g_eat \<noteq> []" by (simp add: g_eat_def)
  have em: "new_head g_eat \<notin> set (snake g_eat)"
    by (simp add: g_eat_def new_head_def np_mod_def np_add_def int64_wrap_def)
  from step_self_collision [OF t, of 0] th
  have 1: "game_step g_tail 0 = (g_tail, Inr (True, False))" by blast
  from step_self_collision [OF e, of 0] em
  have 2: "snd (game_step g_eat 0) \<noteq> Inr (True, False)" by blast
  from t th tm 1 e em 2 show ?thesis by blast
qed

text \<open>
  C7. On a grid of width \<open>w\<close> and height \<open>h\<close>, for a head \<open>(x, y)\<close> and a heading
  whose components and sums are 64-bit integers, as they are whenever the head is
  a cell of the grid and the heading one of the four of \<^verbatim>\<open>_DIRS\<close>, the new head of
  \<^verbatim>\<open>Game.step\<close> is head plus heading, componentwise modulo \<open>(w, h)\<close>, hence a cell
  of the grid. A head on the right, left, bottom or top edge that moves outwards
  re-enters on the opposite edge. Termination depends only on membership of the
  new head in the snake: when the new head is not on the snake, wrapped or not, the
  step does not report termination and the new head becomes the head.
\<close>

theorem wraparound:
  assumes "snake g \<noteq> []" and "dims g = (w, h)" and "0 < w" and "0 < h"
    and "int64 (int w)" and "int64 (int h)"
    and "last (snake g) = (x, y)"
    and "int64 x" and "int64 y" and "int64 (fst (dir g))" and "int64 (snd (dir g))"
    and "int64 (x + fst (dir g))" and "int64 (y + snd (dir g))"
  shows "new_head g = ((x + fst (dir g)) mod int w, (y + snd (dir g)) mod int h)
    \<and> 0 \<le> fst (new_head g) \<and> fst (new_head g) < int w
    \<and> 0 \<le> snd (new_head g) \<and> snd (new_head g) < int h
    \<and> (new_head g \<notin> set (snake g) \<longrightarrow>
         snd (game_step g raw) \<noteq> Inr (True, False) \<and> snd (game_step g raw) \<noteq> Inr (True, True)
         \<and> last (snake (fst (game_step g raw))) = new_head g)
    \<and> (x = int w - 1 \<and> 0 \<le> y \<and> y < int h \<and> dir g = (1, 0) \<longrightarrow> new_head g = (0, y))
    \<and> (x = 0 \<and> 0 \<le> y \<and> y < int h \<and> dir g = (- 1, 0) \<longrightarrow> new_head g = (int w - 1, y))
    \<and> (y = int h - 1 \<and> 0 \<le> x \<and> x < int w \<and> dir g = (0, 1) \<longrightarrow> new_head g = (x, 0))
    \<and> (y = 0 \<and> 0 \<le> x \<and> x < int w \<and> dir g = (0, - 1) \<longrightarrow> new_head g = (x, int h - 1))"
proof -
  have nh: "new_head g = ((x + fst (dir g)) mod int w, (y + snd (dir g)) mod int h)"
    using assms(1-4,7) np_add_exact [OF assms(12)] np_add_exact [OF assms(13)]
    by (simp add: new_head_def np_mod_pos)
  have rng: "0 \<le> fst (new_head g) \<and> fst (new_head g) < int w
    \<and> 0 \<le> snd (new_head g) \<and> snd (new_head g) < int h"
    using assms(3,4) by (simp add: nh)
  have st: "new_head g \<notin> set (snake g) \<longrightarrow>
         snd (game_step g raw) \<noteq> Inr (True, False) \<and> snd (game_step g raw) \<noteq> Inr (True, True)
         \<and> last (snake (fst (game_step g raw))) = new_head g"
    using assms(1) by (auto simp: game_step_def Let_def split: sum.splits)
  have e1: "x = int w - 1 \<and> 0 \<le> y \<and> y < int h \<and> dir g = (1, 0) \<longrightarrow> new_head g = (0, y)"
    using assms(3,4) by (auto simp: nh)
  have e2: "x = 0 \<and> 0 \<le> y \<and> y < int h \<and> dir g = (- 1, 0) \<longrightarrow> new_head g = (int w - 1, y)"
    using assms(3,4) by (auto simp: nh zmod_minus1)
  have e3: "y = int h - 1 \<and> 0 \<le> x \<and> x < int w \<and> dir g = (0, 1) \<longrightarrow> new_head g = (x, 0)"
    using assms(3,4) by (auto simp: nh)
  have e4: "y = 0 \<and> 0 \<le> x \<and> x < int w \<and> dir g = (0, - 1) \<longrightarrow> new_head g = (x, int h - 1)"
    using assms(3,4) by (auto simp: nh zmod_minus1)
  from nh rng st e1 e2 e3 e4 show ?thesis by blast
qed

theorem wraparound_witness:
  "snake g_edge \<noteq> [] \<and> dims g_edge = (10, 10) \<and> last (snake g_edge) = (9, 5)
   \<and> dir g_edge = (1, 0) \<and> int64 9 \<and> int64 5 \<and> int64 1 \<and> int64 0 \<and> int64 10
   \<and> new_head g_edge = (0, 5) \<and> new_head g_edge \<notin> set (snake g_edge)
   \<and> snd (game_step g_edge 0) \<noteq> Inr (True, False)
   \<and> last (snake (fst (game_step g_edge 0))) = new_head g_edge
   \<and> new_head (g_edge\<lparr>snake := [(1, 5), (0, 5)], dir := (- 1, 0)\<rparr>) = (9, 5)
   \<and> new_head (g_edge\<lparr>snake := [(5, 8), (5, 9)], dir := (0, 1)\<rparr>) = (5, 0)
   \<and> new_head (g_edge\<lparr>snake := [(5, 1), (5, 0)], dir := (0, - 1)\<rparr>) = (5, 9)"
proof -
  have s: "snake g_edge \<noteq> []" and d: "dims g_edge = (10, 10)"
    and l: "last (snake g_edge) = (9, 5)" and r: "dir g_edge = (1, 0)"
    by (simp_all add: g_edge_def)
  have i: "int64 9" "int64 5" "int64 1" "int64 0" "int64 10" "int64 (- 1)" "int64 4" "int64 6"
    by (simp_all add: int64_def)
  have w: "new_head g_edge = ((9 + fst (dir g_edge)) mod int 10, (5 + snd (dir g_edge)) mod int 10)
    \<and> (new_head g_edge \<notin> set (snake g_edge) \<longrightarrow>
         snd (game_step g_edge 0) \<noteq> Inr (True, False)
         \<and> last (snake (fst (game_step g_edge 0))) = new_head g_edge)"
    using wraparound [where g = g_edge and w = 10 and h = 10 and x = 9 and y = 5 and raw = 0]
      s d l r i
    by simp
  have nh: "new_head g_edge = (0, 5)" using w r by simp
  have nm: "new_head g_edge \<notin> set (snake g_edge)" by (simp add: nh) (simp add: g_edge_def)
  have st: "snd (game_step g_edge 0) \<noteq> Inr (True, False)
     \<and> last (snake (fst (game_step g_edge 0))) = new_head g_edge"
    using w nm by simp
  let ?gl = "g_edge\<lparr>snake := [(1, 5), (0, 5)], dir := (- 1, 0)\<rparr>"
  let ?gb = "g_edge\<lparr>snake := [(5, 8), (5, 9)], dir := (0, 1)\<rparr>"
  let ?gt = "g_edge\<lparr>snake := [(5, 1), (5, 0)], dir := (0, - 1)\<rparr>"
  have dl: "dims ?gl = (10, 10)" and db: "dims ?gb = (10, 10)" and dt: "dims ?gt = (10, 10)"
    by (simp_all add: g_edge_def)
  have 1: "new_head ?gl = (9, 5)"
    using wraparound [where g = ?gl and w = 10 and h = 10 and x = 0 and y = 5 and raw = 0] dl i
    by simp
  have 2: "new_head ?gb = (5, 0)"
    using wraparound [where g = ?gb and w = 10 and h = 10 and x = 5 and y = 9 and raw = 0] db i
    by simp
  have 3: "new_head ?gt = (5, 9)"
    using wraparound [where g = ?gt and w = 10 and h = 10 and x = 5 and y = 0 and raw = 0] dt i
    by simp
  from s d l r i(1-5) nh nm st 1 2 3 show ?thesis by blast
qed






section \<open>SnakeEnv.step: actions, headings and rewards\<close>

lemma turn_out_of_range: "\<not> (0 \<le> action \<and> action < 3) \<Longrightarrow> turn d action = turn d 1"
  by (simp add: turn_def discrete_contains_def)

lemma index_of_DIRS: "i < 4 \<Longrightarrow> index_of DIRS (DIRS ! i) = Some i"
proof -
  assume "i < 4"
  then have "i = 0 \<or> i = 1 \<or> i = 2 \<or> i = 3" by arith
  then show ?thesis by (auto simp: DIRS_def)
qed

lemma turn_index:
  assumes "i < 4" and "0 \<le> action" and "action < 3"
  shows "turn (DIRS ! i) action = Inr (DIRS ! nat ((int i + (action - 1)) mod 4))"
  using assms by (simp add: turn_def discrete_contains_def index_of_DIRS Let_def) (simp add: DIRS_def)

lemma env_step_dir:
  assumes "\<not> env_done e" and "env_game e = Some g" and "turn (dir g) action = Inr d"
    and "env_step e action raw = (e', evs, out)"
  shows "\<exists>g'. env_game e' = Some g' \<and> dir g' = d"
proof -
  obtain g' res where gs: "game_step (g\<lparr>dir := d\<rparr>) raw = (g', res)"
    by (cases "game_step (g\<lparr>dir := d\<rparr>) raw")
  have "dir g' = d" using game_step_dir [of "g\<lparr>dir := d\<rparr>" raw] gs by simp
  moreover have "env_game e' = Some g'" using assms gs
    by (auto simp: env_step_def Let_def split: sum.splits prod.splits)
  ultimately show ?thesis by blast
qed

lemma reward_of_eq: "reward_of d a = (if d then - 100 else if a then 1 else 0)"
  by (simp add: reward_of_def)

lemma generate_board_eaten_example: "generate_board g_eaten = Inr board_eaten"
  by code_simp


lemma env_step_crash_example:
  "env_step env_pre_crash 0 0 = (env_crashed, [], Inr (Some (board_crashed, - 100, True)))"
  by code_simp

text \<open>
  C2. In a step of an environment that is not terminated, with \<open>done\<close> and
  \<open>ate_apple\<close> the pair that \<^verbatim>\<open>Game.step\<close> returns after the heading update,
  the returned reward is -100 if \<open>done\<close>, otherwise +1 if \<open>ate_apple\<close>, otherwise 0;
  the returned flag is \<open>done\<close>, which is also stored. The reward computation gives
  -100 when both flags are set: termination takes precedence.
\<close>

theorem step_reward:
  assumes "\<not> env_done e" and "env_game e = Some g" and "turn (dir g) action = Inr d"
    and "game_step (g\<lparr>dir := d\<rparr>) raw = (g', Inr (done_flag, ate_apple))"
    and "generate_board g' = Inr b"
  shows "env_step e action raw =
           (e\<lparr>env_game := Some g', env_done := done_flag\<rparr>, [],
            Inr (Some (b, (if done_flag then - 100 else if ate_apple then 1 else 0), done_flag)))
       \<and> reward_of True True = - 100 \<and> reward_of True False = - 100
       \<and> reward_of False True = 1 \<and> reward_of False False = 0"
  using assms by (simp add: env_step_def reward_of_eq)

theorem step_reward_witness:
  "\<not> env_done env_eat \<and> env_game env_eat = Some g_eat \<and> turn (dir g_eat) 1 = Inr (1, 0)
   \<and> game_step (g_eat\<lparr>dir := (1, 0)\<rparr>) 0 = (g_eaten, Inr (False, True))
   \<and> generate_board g_eaten = Inr board_eaten
   \<and> env_step env_eat 1 0 =
       (env_eat\<lparr>env_game := Some g_eaten, env_done := False\<rparr>, [],
        Inr (Some (board_eaten, 1, False)))
   \<and> \<not> env_done env_pre_crash \<and> env_game env_pre_crash = Some g_pre_crash
   \<and> turn (dir g_pre_crash) 0 = Inr (0, - 1)
   \<and> env_step env_pre_crash 0 0 =
       (env_pre_crash\<lparr>env_game := Some (g_pre_crash\<lparr>dir := (0, - 1)\<rparr>), env_done := True\<rparr>, [],
        Inr (Some (board_crashed, - 100, True)))"
proof -
  have a1: "\<not> env_done env_eat" and a2: "env_game env_eat = Some g_eat"
    by (simp_all add: env_eat_def)
  have a3: "turn (dir g_eat) 1 = Inr (1, 0)" by code_simp
  have a4: "game_step (g_eat\<lparr>dir := (1, 0)\<rparr>) 0 = (g_eaten, Inr (False, True))" by code_simp
  note a5 = generate_board_eaten_example
  have b1: "\<not> env_done env_pre_crash" and b2: "env_game env_pre_crash = Some g_pre_crash"
    by (simp_all add: env_pre_crash_def)
  have b3: "turn (dir g_pre_crash) 0 = Inr (0, - 1)" by code_simp
  have b4: "game_step (g_pre_crash\<lparr>dir := (0, - 1)\<rparr>) 0
              = (g_pre_crash\<lparr>dir := (0, - 1)\<rparr>, Inr (True, False))" by code_simp
  have b5: "generate_board (g_pre_crash\<lparr>dir := (0, - 1)\<rparr>) = Inr board_crashed" by code_simp
  from step_reward [OF a1 a2 a3 a4 a5]
  have 1: "env_step env_eat 1 0 =
       (env_eat\<lparr>env_game := Some g_eaten, env_done := False\<rparr>, [],
        Inr (Some (board_eaten, 1, False)))" by simp
  from step_reward [OF b1 b2 b3 b4 b5]
  have 2: "env_step env_pre_crash 0 0 =
       (env_pre_crash\<lparr>env_game := Some (g_pre_crash\<lparr>dir := (0, - 1)\<rparr>), env_done := True\<rparr>, [],
        Inr (Some (board_crashed, - 100, True)))" by simp
  from a1 a2 a3 a4 a5 1 b1 b2 b3 2 show ?thesis by blast
qed

text \<open>
  C6. A step with an action outside \<open>{0, 1, 2}\<close> is the step with action 1: same
  resulting environment, same diagnostics, same returned value, hence no rejection
  and no error of its own. For an action \<open>a\<close> in \<open>{0, 1, 2}\<close>, in an environment
  that is not terminated and whose game has the heading at index \<open>i\<close> of
  \<^verbatim>\<open>_DIRS\<close> (Right, Up, Left, Down), the game has after the step, whatever its
  outcome, the heading at index \<open>(i + (a - 1)) mod 4\<close>.
\<close>

theorem action_normalised_relative_turn:
  "(action \<notin> {0, 1, 2} \<longrightarrow> env_step e action raw = env_step e 1 raw)
   \<and> (action \<in> {0, 1, 2} \<and> \<not> env_done e \<and> env_game e = Some g \<and> i < 4 \<and> dir g = DIRS ! i
        \<and> env_step e action raw = (e', evs, out)
      \<longrightarrow> (\<exists>g'. env_game e' = Some g' \<and> dir g' = DIRS ! nat ((int i + (action - 1)) mod 4)))"
proof -
  have a: "action \<notin> {0, 1, 2} \<longrightarrow> env_step e action raw = env_step e 1 raw"
  proof
    assume "action \<notin> {0, 1, 2}"
    then have "\<not> (0 \<le> action \<and> action < 3)" by auto
    then have t: "turn d action = turn d 1" for d by (rule turn_out_of_range)
    show "env_step e action raw = env_step e 1 raw"
      by (simp add: env_step_def t split: option.splits)
  qed
  have b: "action \<in> {0, 1, 2} \<and> \<not> env_done e \<and> env_game e = Some g \<and> i < 4 \<and> dir g = DIRS ! i
        \<and> env_step e action raw = (e', evs, out)
      \<longrightarrow> (\<exists>g'. env_game e' = Some g' \<and> dir g' = DIRS ! nat ((int i + (action - 1)) mod 4))"
  proof
    assume h: "action \<in> {0, 1, 2} \<and> \<not> env_done e \<and> env_game e = Some g \<and> i < 4 \<and> dir g = DIRS ! i
        \<and> env_step e action raw = (e', evs, out)"
    then have "0 \<le> action" "action < 3" by auto
    with h have "turn (dir g) action = Inr (DIRS ! nat ((int i + (action - 1)) mod 4))"
      by (simp add: turn_index)
    with h show "\<exists>g'. env_game e' = Some g' \<and> dir g' = DIRS ! nat ((int i + (action - 1)) mod 4)"
      using env_step_dir by blast
  qed
  from a b show ?thesis by blast
qed

theorem action_normalised_relative_turn_witness:
  "(7::int) \<notin> {0, 1, 2} \<and> env_step env_eat 7 0 = env_step env_eat 1 0
   \<and> (0::int) \<in> {0, 1, 2} \<and> \<not> env_done env_pre_crash
   \<and> env_game env_pre_crash = Some g_pre_crash \<and> (2::nat) < 4 \<and> dir g_pre_crash = DIRS ! 2
   \<and> env_step env_pre_crash 0 0 = (env_crashed, [], Inr (Some (board_crashed, - 100, True)))
   \<and> (\<exists>g'. env_game env_crashed = Some g' \<and> dir g' = DIRS ! nat ((int 2 + (0 - 1)) mod 4))"
proof -
  have o: "(7::int) \<notin> {0, 1, 2}" by simp
  have i: "(0::int) \<in> {0, 1, 2}" by simp
  have b1: "\<not> env_done env_pre_crash" and b2: "env_game env_pre_crash = Some g_pre_crash"
    by (simp_all add: env_pre_crash_def)
  have b3: "(2::nat) < 4" by simp
  have b4: "dir g_pre_crash = DIRS ! 2" by (simp add: g_pre_crash_def DIRS_def)
  from action_normalised_relative_turn [where action = 7 and e = env_eat and raw = 0] o
  have 1: "env_step env_eat 7 0 = env_step env_eat 1 0" by blast
  from action_normalised_relative_turn [where action = 0 and e = env_pre_crash and raw = 0
      and g = g_pre_crash and i = 2 and e' = env_crashed and evs = "[]"
      and out = "Inr (Some (board_crashed, - 100, True))"]
    i b1 b2 b3 b4 env_step_crash_example
  have 2: "\<exists>g'. env_game env_crashed = Some g' \<and> dir g' = DIRS ! nat ((int 2 + (0 - 1)) mod 4)"
    by blast
  from o 1 i b1 b2 b3 b4 env_step_crash_example 2 show ?thesis by blast
qed

section \<open>The apple and the snake\<close>






lemma set_snake_split: "s \<noteq> [] \<Longrightarrow> set s = insert (last s) (set (butlast s))"
  by (induction s) auto


lemma where_zero_set:
  "(r, c) \<in> set (where_zero b) \<longleftrightarrow> r < length b \<and> c < length (b ! r) \<and> b ! r ! c = 0"
  by (auto simp: where_zero_def)

lemma generate_apple_Inr:
  assumes "generate_apple d s raw = Inr a"
  obtains b r c where "generate_board_with_snake_only d s = Inr b"
    and "(r, c) \<in> set (where_zero b)" and "a = (int c, int r)"
proof -
  from assms obtain b where b: "generate_board_with_snake_only d s = Inr b"
    by (auto simp: generate_apple_def split: sum.splits)
  let ?e = "where_zero b"
  from assms b have pos: "0 < length ?e"
    and a: "a = (int (snd (?e ! (raw mod length ?e))), int (fst (?e ! (raw mod length ?e))))"
    by (auto simp: generate_apple_def randint_def Let_def nat_mod_distrib zmod_int [symmetric]
        split: if_splits)
  from pos have "?e ! (raw mod length ?e) \<in> set ?e" by simp
  then have "(fst (?e ! (raw mod length ?e)), snd (?e ! (raw mod length ?e))) \<in> set ?e" by simp
  with b a that show ?thesis by blast
qed








lemma env_reset_example: "env_reset env_crashed 0 0 = (env_fresh, Inr (board_fresh, 0, False))"
  by code_simp


lemma g_full_reachable:
  "new_game (2, 2) 1 0 0 = Inr \<lparr>dims = (2, 2), snake = [(0, 1)], dir = (1, 0), apple = (0, 0)\<rparr>
   \<and> game_step \<lparr>dims = (2, 2), snake = [(0, 1)], dir = (0, - 1), apple = (0, 0)\<rparr> 0
       = (\<lparr>dims = (2, 2), snake = [(- 100, - 100), (0, 0)], dir = (0, - 1), apple = (1, 0)\<rparr>,
          Inr (False, True))
   \<and> game_step \<lparr>dims = (2, 2), snake = [(- 100, - 100), (0, 0)], dir = (1, 0), apple = (1, 0)\<rparr> 1
       = (\<lparr>dims = (2, 2), snake = [(- 100, - 100), (0, 0), (1, 0)], dir = (1, 0), apple = (1, 1)\<rparr>,
          Inr (False, True))
   \<and> game_step \<lparr>dims = (2, 2), snake = [(- 100, - 100), (0, 0), (1, 0)], dir = (0, 1),
                    apple = (1, 1)\<rparr> 0
       = (g_full\<lparr>dir := (0, 1)\<rparr>, Inr (False, True))"
  by code_simp





section \<open>The board on a square grid\<close>

text \<open>
  The loop skips a segment when \<^verbatim>\<open>(x, y) < (0, 0)\<close> in the lexicographic order
  of tuples. The dummy piece is skipped; a cell of the grid never is.
\<close>

lemma skip_test_on_snake_segments:
  "tuple_less sentinel (0, 0) \<and> (in_grid n p \<longrightarrow> \<not> tuple_less p (0, 0))"
  by (cases p) (auto simp: sentinel_def in_grid_def)

lemma rect_zeros: "rect n (zeros (n, n))"
  by (simp add: rect_def zeros_def)

lemma zeros_nth: "r < n \<Longrightarrow> c < n \<Longrightarrow> zeros (n, n) ! r ! c = 0"
  by (simp add: zeros_def)

lemma board_set_grid:
  assumes "rect n b" and "in_grid n (x, y)"
  shows "\<exists>b'. board_set b y x v = Inr b' \<and> rect n b'
     \<and> (\<forall>r<n. \<forall>c<n. b' ! r ! c = (if (int c, int r) = (x, y) then v else b ! r ! c))"
proof -
  let ?b' = "b[nat y := (b ! nat y)[nat x := v]]"
  from assms have y: "0 \<le> y" "nat y < n" and x: "0 \<le> x" "nat x < n"
    by (auto simp: in_grid_def)
  from assms(1) have len: "length b = n" and rows: "\<And>r. r < n \<Longrightarrow> length (b ! r) = n"
    by (auto simp: rect_def)
  have iy: "np_index (length b) y = Some (nat y)" using y len by (auto simp: np_index_def)
  have ix: "np_index (length (b ! nat y)) x = Some (nat x)"
    using x rows [OF y(2)] by (auto simp: np_index_def)
  have 1: "board_set b y x v = Inr ?b'" by (simp add: board_set_def iy ix)
  have 2: "rect n ?b'" using len rows x y by (auto simp: rect_def nth_list_update)
  have 3: "\<forall>r<n. \<forall>c<n. ?b' ! r ! c = (if (int c, int r) = (x, y) then v else b ! r ! c)"
    using len rows x y by (auto simp: nth_list_update)
  from 1 2 3 show ?thesis by blast
qed

lemma mark_body_grid:
  assumes "rect n b" and "\<forall>p \<in> set ps. in_grid n p \<or> p = sentinel"
  shows "\<exists>b'. mark_body b ps = Inr b' \<and> rect n b'
     \<and> (\<forall>r<n. \<forall>c<n. b' ! r ! c = (if (int c, int r) \<in> set ps then 1 else b ! r ! c))"
  using assms
proof (induction ps arbitrary: b)
  case Nil
  then show ?case by simp
next
  case (Cons p ps)
  obtain x y where p: "p = (x, y)" by (cases p)
  from Cons.prems have rest: "\<forall>q \<in> set ps. in_grid n q \<or> q = sentinel" by simp
  show ?case
  proof (cases "in_grid n p")
    case True
    then have nl: "\<not> tuple_less (x, y) (0, 0)" by (auto simp: in_grid_def p)
    from board_set_grid [OF Cons.prems(1) True [unfolded p], of 1]
    obtain b1 where b1: "board_set b y x 1 = Inr b1" and r1: "rect n b1"
      and c1: "\<forall>r<n. \<forall>c<n. b1 ! r ! c = (if (int c, int r) = (x, y) then 1 else b ! r ! c)"
      by blast
    from Cons.IH [OF r1 rest] obtain b' where b': "mark_body b1 ps = Inr b'" and r': "rect n b'"
      and c': "\<forall>r<n. \<forall>c<n. b' ! r ! c = (if (int c, int r) \<in> set ps then 1 else b1 ! r ! c)"
      by blast
    have "mark_body b (p # ps) = Inr b'"
      using nl b1 b' by (simp add: p del: tuple_less.simps One_nat_def)
    moreover have "\<forall>r<n. \<forall>c<n. b' ! r ! c = (if (int c, int r) \<in> set (p # ps) then 1 else b ! r ! c)"
      using c1 c' by (auto simp: p)
    ultimately show ?thesis using r' by blast
  next
    case False
    with Cons.prems have ps: "p = sentinel" by simp
    then have sk: "tuple_less (x, y) (0, 0)" using p by (auto simp: sentinel_def)
    from Cons.IH [OF Cons.prems(1) rest] obtain b' where b': "mark_body b ps = Inr b'"
      and r': "rect n b'"
      and c': "\<forall>r<n. \<forall>c<n. b' ! r ! c = (if (int c, int r) \<in> set ps then 1 else b ! r ! c)"
      by blast
    have "mark_body b (p # ps) = Inr b'" using sk b' by (simp add: p del: tuple_less.simps)
    moreover have "\<forall>r<n. \<forall>c<n. b' ! r ! c = (if (int c, int r) \<in> set (p # ps) then 1 else b ! r ! c)"
    proof (intro allI impI)
      fix r c assume "r < n" "c < n"
      then have "in_grid n (int c, int r)" by (simp add: in_grid_def)
      with False have "(int c, int r) \<noteq> p" by auto
      with c' \<open>r < n\<close> \<open>c < n\<close>
      show "b' ! r ! c = (if (int c, int r) \<in> set (p # ps) then 1 else b ! r ! c)" by auto
    qed
    ultimately show ?thesis using r' by blast
  qed
qed

lemma snake_only_grid:
  assumes "snake_ok n s"
  shows "\<exists>b. generate_board_with_snake_only (n, n) s = Inr b \<and> rect n b
     \<and> (\<forall>r<n. \<forall>c<n. b ! r ! c =
           (if (int c, int r) = last s then 2
            else if (int c, int r) \<in> set (butlast s) then 1 else 0))"
proof -
  from assms have ne: "s \<noteq> []" and hd: "in_grid n (last s)"
    and body: "\<forall>p \<in> set (butlast s). in_grid n p \<or> p = sentinel"
    by (auto simp: snake_ok_def)
  from mark_body_grid [OF rect_zeros body] obtain b0
    where b0: "mark_body (zeros (n, n)) (butlast s) = Inr b0" and r0: "rect n b0"
      and c0: "\<forall>r<n. \<forall>c<n. b0 ! r ! c = (if (int c, int r) \<in> set (butlast s) then 1 else 0)"
    by (auto simp: zeros_nth)
  from hd have "in_grid n (fst (last s), snd (last s))" by simp
  from board_set_grid [OF r0 this, of 2] obtain b
    where b: "board_set b0 (snd (last s)) (fst (last s)) 2 = Inr b" and r: "rect n b"
      and c: "\<forall>r<n. \<forall>c<n. b ! r ! c = (if (int c, int r) = last s then 2 else b0 ! r ! c)"
    by auto
  have "generate_board_with_snake_only (n, n) s = Inr b"
    using b0 b ne by (simp add: generate_board_with_snake_only_def)
  moreover have "\<forall>r<n. \<forall>c<n. b ! r ! c =
           (if (int c, int r) = last s then 2
            else if (int c, int r) \<in> set (butlast s) then 1 else 0)"
    using c c0 by simp
  ultimately show ?thesis using r by blast
qed

text \<open>
  The snapshot on a square grid of side \<open>n\<close>, for a game whose head and apple are
  cells of the grid and whose other segments are cells of the grid or the dummy
  piece: the cell in row \<open>r\<close> and column \<open>c\<close> is 3 when \<open>(c, r)\<close> is the apple;
  otherwise 2 when it is the head; otherwise 1 when it is another segment;
  otherwise 0.
\<close>

lemma generate_board_grid:
  assumes "dims g = (n, n)" and "snake_ok n (snake g)" and "in_grid n (apple g)"
  shows "\<exists>b. generate_board g = Inr b \<and> rect n b
     \<and> (\<forall>r<n. \<forall>c<n. b ! r ! c =
           (if (int c, int r) = apple g then 3
            else if (int c, int r) = last (snake g) then 2
            else if (int c, int r) \<in> set (butlast (snake g)) then 1 else 0))"
proof -
  from snake_only_grid [OF assms(2)] obtain b0
    where b0: "generate_board_with_snake_only (n, n) (snake g) = Inr b0" and r0: "rect n b0"
      and c0: "\<forall>r<n. \<forall>c<n. b0 ! r ! c =
           (if (int c, int r) = last (snake g) then 2
            else if (int c, int r) \<in> set (butlast (snake g)) then 1 else 0)"
    by blast
  from assms(3) have "in_grid n (fst (apple g), snd (apple g))" by simp
  from board_set_grid [OF r0 this, of 3] obtain b
    where b: "board_set b0 (snd (apple g)) (fst (apple g)) 3 = Inr b" and r: "rect n b"
      and c: "\<forall>r<n. \<forall>c<n. b ! r ! c = (if (int c, int r) = apple g then 3 else b0 ! r ! c)"
    by auto
  have "generate_board g = Inr b" using b0 b assms(1) by (simp add: generate_board_def)
  moreover have "\<forall>r<n. \<forall>c<n. b ! r ! c =
           (if (int c, int r) = apple g then 3
            else if (int c, int r) = last (snake g) then 2
            else if (int c, int r) \<in> set (butlast (snake g)) then 1 else 0)"
    using c c0 by simp
  ultimately show ?thesis using r by blast
qed

lemma g_wide_reachable:
  "new_game (4, 2) 2 0 1 = Inr g_wide_start
   \<and> game_step g_wide_start 0 = (g_wide_start\<lparr>snake := [(1, 1), (2, 1)]\<rparr>, Inr (False, False))
   \<and> game_step (g_wide_start\<lparr>snake := [(1, 1), (2, 1)], dir := (0, - 1)\<rparr>) 0
       = (g_wide\<lparr>dir := (0, - 1)\<rparr>, Inr (False, False))"
  by code_simp

text \<open>
  C8 does not hold of the code on a grid that is not square. The array is
  allocated with \<^verbatim>\<open>np.zeros(self._dims)\<close>, \<open>w\<close> rows of \<open>h\<close> cells, and indexed
  \<^verbatim>\<open>board[y, x]\<close>, while \<^verbatim>\<open>Game.step\<close> wraps \<open>x\<close> modulo \<open>w\<close> and \<open>y\<close> modulo
  \<open>h\<close>. In the game \<open>g_wide\<close> of width 4 and height 2 every segment and the apple
  are cells of the grid, and \<^verbatim>\<open>generate_board\<close> raises \<^verbatim>\<open>IndexError\<close> at the body
  segment \<open>(2, 1)\<close> instead of returning the snapshot. On a square grid the
  snapshot is the one of the claim (\<open>generate_board_grid\<close>).
\<close>

theorem board_snapshot_wide_grid_raises:
  "dims g_wide = (4, 2) \<and> snake g_wide = [(2, 1), (2, 0)]
   \<and> in_grid_wh 4 2 (2, 1) \<and> in_grid_wh 4 2 (2, 0) \<and> in_grid_wh 4 2 (apple g_wide)
   \<and> generate_board g_wide = Inl IndexError"
  by code_simp

section \<open>Respawning the apple\<close>

lemma grid_eq: "{p. in_grid n p} = {0..<int n} \<times> {0..<int n}"
  by (auto simp: in_grid_def)

lemma card_grid: "card {p. in_grid n p} = n * n"
  by (simp add: grid_eq)

lemma finite_grid: "finite {p. in_grid n p}"
  by (simp add: grid_eq)

lemma free_cell_iff:
  "card (set s \<inter> {p. in_grid n p}) < n * n \<longleftrightarrow> (\<exists>p. in_grid n p \<and> p \<notin> set s)"
proof -
  let ?G = "{p. in_grid n p}" and ?A = "set s \<inter> {p. in_grid n p}"
  have sub: "?A \<subseteq> ?G" by blast
  have "card ?A < card ?G \<longleftrightarrow> ?A \<noteq> ?G"
  proof
    assume "card ?A < card ?G" then show "?A \<noteq> ?G" by auto
  next
    assume "?A \<noteq> ?G"
    with sub have "?A \<subset> ?G" by blast
    then show "card ?A < card ?G" using finite_grid by (rule psubset_card_mono [rotated])
  qed
  moreover have "?A \<noteq> ?G \<longleftrightarrow> (\<exists>p. in_grid n p \<and> p \<notin> set s)" by blast
  ultimately show ?thesis by (simp add: card_grid)
qed

lemma card_le_grid: "card (set s \<inter> {p. in_grid n p}) \<le> n * n"
proof -
  have "card (set s \<inter> {p. in_grid n p}) \<le> card {p. in_grid n p}"
    by (rule card_mono [OF finite_grid]) blast
  then show ?thesis by (simp add: card_grid)
qed

lemma full_grid_iff:
  "card (set s \<inter> {p. in_grid n p}) = n * n \<longleftrightarrow> (\<forall>p. in_grid n p \<longrightarrow> p \<in> set s)"
  using free_cell_iff [of s n] card_le_grid [of s n] by auto

lemma generate_apple_grid:
  assumes "snake_ok n s"
  shows "((\<exists>p. in_grid n p \<and> p \<notin> set s) \<longrightarrow>
            (\<exists>a. generate_apple (n, n) s raw = Inr a \<and> in_grid n a \<and> a \<notin> set s))
       \<and> ((\<forall>p. in_grid n p \<longrightarrow> p \<in> set s) \<longrightarrow> generate_apple (n, n) s raw = Inl ValueError)"
proof -
  from snake_only_grid [OF assms] obtain b
    where b: "generate_board_with_snake_only (n, n) s = Inr b" and r: "rect n b"
      and c: "\<forall>r<n. \<forall>c<n. b ! r ! c =
           (if (int c, int r) = last s then 2
            else if (int c, int r) \<in> set (butlast s) then 1 else 0)"
    by blast
  from assms have ne: "s \<noteq> []" by (simp add: snake_ok_def)
  have zero: "b ! r ! c = 0 \<longleftrightarrow> (int c, int r) \<notin> set s" if "r < n" "c < n" for r c
    using c that by (simp add: set_snake_split [OF ne])
  have wz: "(r, c) \<in> set (where_zero b) \<longleftrightarrow> r < n \<and> c < n \<and> (int c, int r) \<notin> set s" for r c
    using r zero by (auto simp: where_zero_set rect_def)
  have 1: "(\<exists>p. in_grid n p \<and> p \<notin> set s) \<longrightarrow>
            (\<exists>a. generate_apple (n, n) s raw = Inr a \<and> in_grid n a \<and> a \<notin> set s)"
  proof
    assume "\<exists>p. in_grid n p \<and> p \<notin> set s"
    then obtain x y where g: "in_grid n (x, y)" and f: "(x, y) \<notin> set s" by auto
    then have "(nat y, nat x) \<in> set (where_zero b)" by (auto simp: wz in_grid_def)
    then have "0 < length (where_zero b)" by (cases "where_zero b") auto
    then obtain a where a: "generate_apple (n, n) s raw = Inr a"
      by (simp add: generate_apple_def b randint_def Let_def)
    from a obtain b' r' c' where "generate_board_with_snake_only (n, n) s = Inr b'"
      and "(r', c') \<in> set (where_zero b')" and "a = (int c', int r')"
      by (rule generate_apple_Inr)
    with b have "in_grid n a \<and> a \<notin> set s" by (simp add: wz in_grid_def)
    with a show "\<exists>a. generate_apple (n, n) s raw = Inr a \<and> in_grid n a \<and> a \<notin> set s" by blast
  qed
  have 2: "(\<forall>p. in_grid n p \<longrightarrow> p \<in> set s) \<longrightarrow> generate_apple (n, n) s raw = Inl ValueError"
  proof
    assume all: "\<forall>p. in_grid n p \<longrightarrow> p \<in> set s"
    have "where_zero b = []"
    proof (cases "where_zero b")
      case Nil
      then show ?thesis .
    next
      case (Cons q qs)
      obtain r c where q: "q = (r, c)" by (cases q)
      have "(r, c) \<in> set (where_zero b)" by (simp add: Cons q)
      then have "r < n" "c < n" "(int c, int r) \<notin> set s" by (simp_all add: wz)
      with all have False by (auto simp: in_grid_def)
      then show ?thesis ..
    qed
    then show "generate_apple (n, n) s raw = Inl ValueError"
      by (simp add: generate_apple_def b randint_def)
  qed
  from 1 2 show ?thesis by blast
qed

lemma new_head_in_grid: "dims g = (n, n) \<Longrightarrow> 0 < n \<Longrightarrow> in_grid n (new_head g)"
  by (simp add: new_head_def in_grid_def np_mod_pos)

lemma moved_snake_ok:
  assumes "dims g = (n, n)" and "0 < n"
    and "\<forall>p \<in> set (tl (snake g)). in_grid n p \<or> p = sentinel"
  shows "snake_ok n (tl (snake g) @ [new_head g])"
  using assms by (simp add: snake_ok_def new_head_in_grid)

text \<open>
  \<^verbatim>\<open>_generate_apple\<close> draws an index below the number of zero cells and has
  no guard for that number being zero. On a square grid of side \<open>n\<close>, for a step
  whose new head is on the apple and off the snake, with \<open>s\<close> the snake after
  the tail was dropped and the new head appended: when \<open>s\<close> covers fewer than
  \<open>n * n\<close> cells of the grid, the respawn yields a cell of the grid off \<open>s\<close> and the
  step returns (False, True); when \<open>s\<close> covers all \<open>n * n\<close> cells, the draw raises
  \<^verbatim>\<open>ValueError\<close>, which leaves the step with the snake moved, the old apple under
  the head and no dummy piece: no result is returned and nothing reports a win.
\<close>

lemma respawn_on_square_grid:
  assumes "dims g = (n, n)" and "0 < n" and "snake g \<noteq> []"
    and "\<forall>p \<in> set (tl (snake g)). in_grid n p \<or> p = sentinel"
    and "new_head g \<notin> set (snake g)" and "new_head g = apple g"
  shows "(card (set (tl (snake g) @ [new_head g]) \<inter> {p. in_grid n p}) < n * n \<longrightarrow>
           (\<exists>a. in_grid n a \<and> a \<notin> set (tl (snake g) @ [new_head g])
              \<and> generate_apple (n, n) (tl (snake g) @ [new_head g]) raw = Inr a
              \<and> game_step g raw =
                  (g\<lparr>snake := sentinel # tl (snake g) @ [new_head g], apple := a\<rparr>,
                   Inr (False, True))))
       \<and> (card (set (tl (snake g) @ [new_head g]) \<inter> {p. in_grid n p}) = n * n \<longrightarrow>
            generate_apple (n, n) (tl (snake g) @ [new_head g]) raw = Inl ValueError
          \<and> game_step g raw = (g\<lparr>snake := tl (snake g) @ [new_head g]\<rparr>, Inl ValueError))"
proof -
  let ?s = "tl (snake g) @ [new_head g]"
  have ok: "snake_ok n ?s" using assms(1,2,4) by (rule moved_snake_ok)
  note ga = generate_apple_grid [OF ok, of raw]
  have 1: "card (set ?s \<inter> {p. in_grid n p}) < n * n \<longrightarrow>
           (\<exists>a. in_grid n a \<and> a \<notin> set ?s
              \<and> generate_apple (n, n) ?s raw = Inr a
              \<and> game_step g raw = (g\<lparr>snake := sentinel # ?s, apple := a\<rparr>, Inr (False, True)))"
  proof
    assume "card (set ?s \<inter> {p. in_grid n p}) < n * n"
    then have "\<exists>p. in_grid n p \<and> p \<notin> set ?s" by (simp only: free_cell_iff)
    with ga obtain a where a: "generate_apple (n, n) ?s raw = Inr a" "in_grid n a" "a \<notin> set ?s"
      by blast
    have "game_step g raw = (g\<lparr>snake := sentinel # ?s, apple := a\<rparr>, Inr (False, True))"
      using assms(1,3,5,6) a(1) by (simp add: game_step_def Let_def)
    with a show "\<exists>a. in_grid n a \<and> a \<notin> set ?s
              \<and> generate_apple (n, n) ?s raw = Inr a
              \<and> game_step g raw = (g\<lparr>snake := sentinel # ?s, apple := a\<rparr>, Inr (False, True))"
      by blast
  qed
  have 2: "card (set ?s \<inter> {p. in_grid n p}) = n * n \<longrightarrow>
            generate_apple (n, n) ?s raw = Inl ValueError
          \<and> game_step g raw = (g\<lparr>snake := ?s\<rparr>, Inl ValueError)"
  proof
    assume "card (set ?s \<inter> {p. in_grid n p}) = n * n"
    then have "\<forall>p. in_grid n p \<longrightarrow> p \<in> set ?s" by (simp only: full_grid_iff)
    with ga have a: "generate_apple (n, n) ?s raw = Inl ValueError" by blast
    have "game_step g raw = (g\<lparr>snake := ?s\<rparr>, Inl ValueError)"
      using assms(1,3,5,6) a by (simp add: game_step_def Let_def)
    with a show "generate_apple (n, n) ?s raw = Inl ValueError
          \<and> game_step g raw = (g\<lparr>snake := ?s\<rparr>, Inl ValueError)" by blast
  qed
  from 1 2 show ?thesis by blast
qed

text \<open>
  C10 does not hold of the code on a grid that is not square, for the reason
  given for \<open>board_snapshot_wide_grid_raises\<close>. The next step of \<open>g_wide\<close> moves the
  head onto the apple; the moved snake covers 2 of the 8 cells, and the respawn
  raises \<^verbatim>\<open>IndexError\<close> while it draws the snake, before any cell is chosen. On a
  square grid the respawn succeeds exactly when a cell is free
  (\<open>respawn_on_square_grid\<close>).
\<close>

theorem respawn_wide_grid_raises:
  "dims g_wide = (4, 2) \<and> new_head g_wide = apple g_wide
   \<and> new_head g_wide \<notin> set (snake g_wide)
   \<and> tl (snake g_wide) @ [new_head g_wide] = [(2, 0), (1, 0)]
   \<and> in_grid_wh 4 2 (2, 0) \<and> in_grid_wh 4 2 (1, 0)
   \<and> generate_apple (4, 2) [(2, 0), (1, 0)] 0 = Inl IndexError
   \<and> game_step g_wide 0 = (g_wide\<lparr>snake := [(2, 0), (1, 0)]\<rparr>, Inl IndexError)"
  by code_simp

section \<open>Well-formed games stay well-formed\<close>

lemma game_step_keeps_ok:
  assumes "dims g = (n, n)" and "snake_ok n (snake g)" and "in_grid n (apple g)"
    and "game_step g raw = (g', Inr out)"
  shows "dims g' = (n, n) \<and> snake_ok n (snake g') \<and> in_grid n (apple g')"
proof -
  from assms(2) have ne: "snake g \<noteq> []" and hd: "in_grid n (last (snake g))"
    and body: "\<forall>p \<in> set (butlast (snake g)). in_grid n p \<or> p = sentinel"
    by (auto simp: snake_ok_def)
  from hd have n: "0 < n" by (auto simp: in_grid_def)
  have "\<forall>p \<in> set (snake g). in_grid n p \<or> p = sentinel"
    using hd body by (auto simp: set_snake_split [OF ne])
  moreover have "set (tl (snake g)) \<subseteq> set (snake g)" by (cases "snake g") auto
  ultimately have tl: "\<forall>p \<in> set (tl (snake g)). in_grid n p \<or> p = sentinel" by blast
  let ?s = "tl (snake g) @ [new_head g]"
  have ok: "snake_ok n ?s" using assms(1) n tl by (rule moved_snake_ok)
  then have ok': "snake_ok n (sentinel # ?s)" by (simp add: snake_ok_def butlast_append)
  show ?thesis
  proof (cases "new_head g \<in> set (snake g)")
    case True
    with assms ne show ?thesis by (simp add: game_step_def)
  next
    case False
    show ?thesis
    proof (cases "new_head g = apple g")
      case True
      from assms(4) ne False True obtain a
        where a: "generate_apple (n, n) ?s raw = Inr a"
          and g': "g' = g\<lparr>snake := sentinel # ?s, apple := a\<rparr>"
        by (auto simp: game_step_def Let_def assms(1) split: sum.splits)
      from a obtain b r c where b: "generate_board_with_snake_only (n, n) ?s = Inr b"
        and rc: "(r, c) \<in> set (where_zero b)" and ac: "a = (int c, int r)"
        by (rule generate_apple_Inr)
      from snake_only_grid [OF ok] b have "rect n b" by auto
      with rc have "in_grid n a" by (auto simp: where_zero_set rect_def in_grid_def ac)
      with ok' show ?thesis by (simp add: g' assms(1))
    next
      case neq: False
      with assms ne False ok show ?thesis by (auto simp: game_step_def Let_def)
    qed
  qed
qed

lemma initial_snake_10:
  "generate_initial_snake (10, 10) 5 raw =
     Inr [(int raw mod 5, 5), (int raw mod 5 + 1, 5), (int raw mod 5 + 2, 5),
          (int raw mod 5 + 3, 5), (int raw mod 5 + 4, 5)]"
proof -
  have k: "(4::nat) = Suc (Suc (Suc (Suc 0)))" by simp
  show ?thesis by (simp add: generate_initial_snake_def randint_def k)
qed

lemma new_game_10:
  "\<exists>g. new_game (10, 10) 5 raw1 raw2 = Inr g \<and> dims g = (10, 10) \<and> snake_ok 10 (snake g)
     \<and> in_grid 10 (apple g)"
proof -
  define x where "x = int raw1 mod 5"
  define s where "s = [(x, 5), (x + 1, 5), (x + 2, 5), (x + 3, 5), (x + 4, 5::int)]"
  have x: "0 \<le> x" "x < 5" by (simp_all add: x_def)
  have ok: "snake_ok 10 s" using x by (simp add: s_def snake_ok_def in_grid_def)
  have "in_grid 10 (0, 0) \<and> (0, 0) \<notin> set s" by (simp add: s_def in_grid_def)
  then have "\<exists>p. in_grid 10 p \<and> p \<notin> set s" by blast
  with generate_apple_grid [OF ok, of raw2]
  obtain a where a: "generate_apple (10, 10) s raw2 = Inr a" "in_grid 10 a" by blast
  have "generate_initial_snake (10, 10) 5 raw1 = Inr s"
    by (simp add: initial_snake_10 s_def x_def)
  then have "new_game (10, 10) 5 raw1 raw2
               = Inr \<lparr>dims = (10, 10), snake = s, dir = (1, 0), apple = a\<rparr>"
    by (simp add: new_game_def a(1))
  with ok a(2) show ?thesis by simp
qed

section \<open>Termination and reset\<close>

lemma env_reset_10:
  assumes "env_dims e = (10, 10)"
  shows "\<exists>g b. env_reset e raw1 raw2
                 = (e\<lparr>env_game := Some g, env_done := False\<rparr>, Inr (b, 0, False))"
proof -
  from new_game_10 [of raw1 raw2] obtain g where g: "new_game (10, 10) 5 raw1 raw2 = Inr g"
    and d: "dims g = (10, 10)" and ok: "snake_ok 10 (snake g)" and a: "in_grid 10 (apple g)"
    by blast
  from generate_board_grid [OF d ok a] obtain b where b: "generate_board g = Inr b" by blast
  have "env_reset e raw1 raw2 = (e\<lparr>env_game := Some g, env_done := False\<rparr>, Inr (b, 0, False))"
    using assms g b by (simp add: env_reset_def)
  then show ?thesis by blast
qed

lemma env_step_done:
  "env_done e \<Longrightarrow> env_step e action raw = (e, [Warn terminal_warning], Inr None)"
  by (simp add: env_step_def)

lemma env_steps_done: "env_done e \<Longrightarrow> env_steps e acts = (e, Inr ())"
  by (induction acts) (auto simp: env_step_done)

lemma env_step_reports_done:
  "env_step e action raw = (e', evs, Inr (Some (b, reward, dn))) \<Longrightarrow> env_done e' = dn"
  by (auto simp: env_step_def Let_def split: if_splits option.splits sum.splits prod.splits)

lemma env_reset_active: "env_reset e raw1 raw2 = (e', Inr obs) \<Longrightarrow> \<not> env_done e'"
  by (auto simp: env_reset_def Let_def split: sum.splits)

text \<open>
  C3. A step that returns \<open>done = True\<close> leaves the environment terminated. In a
  terminated environment every step, whatever the action, returns \<^verbatim>\<open>None\<close>,
  logs one warning and leaves the environment, hence board, snake, heading and
  apple, as it was; so does any sequence of steps. A \<^verbatim>\<open>reset\<close> that returns
  leaves the environment not terminated, and for the dimensions \<open>(10, 10)\<close> that
  the constructor of the environment sets, \<^verbatim>\<open>reset\<close> always returns, with a new
  game, reward 0 and \<open>done = False\<close>.
\<close>

theorem termination_freeze:
  "(env_step e0 action raw = (e, evs, Inr (Some (b, reward, True))) \<longrightarrow> env_done e)
   \<and> (env_done e \<longrightarrow>
        env_step e action' raw' = (e, [Warn terminal_warning], Inr None)
      \<and> env_steps e acts = (e, Inr ()))
   \<and> (env_reset e raw1 raw2 = (e1, Inr obs) \<longrightarrow> \<not> env_done e1)
   \<and> (env_dims e = (10, 10) \<longrightarrow>
        (\<exists>g b1. env_reset e raw1 raw2 =
                  (e\<lparr>env_game := Some g, env_done := False\<rparr>, Inr (b1, 0, False))))"
  using env_step_reports_done [of e0 action raw e evs b reward True]
    env_step_done [of e action' raw'] env_steps_done [of e acts]
    env_reset_active [of e raw1 raw2 e1 obs] env_reset_10 [of e raw1 raw2]
  by blast

theorem termination_freeze_witness:
  "env_step env_pre_crash 0 0 = (env_crashed, [], Inr (Some (board_crashed, - 100, True)))
   \<and> env_done env_crashed
   \<and> env_step env_crashed 2 7 = (env_crashed, [Warn terminal_warning], Inr None)
   \<and> env_steps env_crashed [(0, 1), (1, 2), (5, 3)] = (env_crashed, Inr ())
   \<and> env_reset env_crashed 0 0 = (env_fresh, Inr (board_fresh, 0, False))
   \<and> \<not> env_done env_fresh
   \<and> env_dims env_crashed = (10, 10)
   \<and> (\<exists>g b1. env_reset env_crashed 0 0 =
                (env_crashed\<lparr>env_game := Some g, env_done := False\<rparr>, Inr (b1, 0, False)))"
proof -
  have d: "env_dims env_crashed = (10, 10)" by (simp add: env_crashed_def)
  from termination_freeze [where ?e0.0 = env_pre_crash and action = 0 and raw = 0
      and e = env_crashed and evs = "[]" and b = board_crashed and reward = "- 100"
      and action' = 2 and raw' = 7 and acts = "[(0, 1), (1, 2), (5, 3)]"
      and ?raw1.0 = 0 and ?raw2.0 = 0 and ?e1.0 = env_fresh and obs = "(board_fresh, 0, False)"]
    env_step_crash_example env_reset_example d
  have "env_done env_crashed
   \<and> env_step env_crashed 2 7 = (env_crashed, [Warn terminal_warning], Inr None)
   \<and> env_steps env_crashed [(0, 1), (1, 2), (5, 3)] = (env_crashed, Inr ())
   \<and> \<not> env_done env_fresh
   \<and> (\<exists>g b1. env_reset env_crashed 0 0 =
                (env_crashed\<lparr>env_game := Some g, env_done := False\<rparr>, Inr (b1, 0, False)))"
    by blast
  with env_step_crash_example env_reset_example d show ?thesis by blast
qed

section \<open>Four right turns\<close>

lemma turn_right_table:
  "turn (1, 0) 0 = Inr (0, 1)" "turn (0, 1) 0 = Inr (- 1, 0)"
  "turn (- 1, 0) 0 = Inr (0, - 1)" "turn (0, - 1) 0 = Inr (1, 0)"
  by (simp_all add: turn_def DIRS_def discrete_contains_def)

lemma turn_in_DIRS: "d \<in> set DIRS \<Longrightarrow> \<exists>d'. turn d a = Inr d' \<and> d' \<in> set DIRS"
proof -
  assume "d \<in> set DIRS"
  then obtain i where i: "index_of DIRS d = Some i" "i < 4" by (auto simp: DIRS_def)
  have "nat ((int i + k) mod 4) < 4" for k :: int by simp
  then have "DIRS ! nat ((int i + k) mod 4) \<in> set DIRS" for k :: int
    by (simp add: DIRS_def del: set_simps)
  then show ?thesis using i by (simp add: turn_def Let_def DIRS_def[THEN arg_cong, of length])
qed

text \<open>
  As long as a run of steps leaves the environment not terminated, the heading of
  the game is the iterated heading update of the actions.
\<close>

lemma env_steps_alive:
  "env_steps e acts = (e', Inr ()) \<Longrightarrow> \<not> env_done e' \<Longrightarrow> env_game e = Some g \<Longrightarrow>
   dir g \<in> set DIRS \<Longrightarrow>
   \<exists>g'. env_game e' = Some g' \<and> turns (dir g) (map fst acts) = Inr (dir g')"
proof (induction acts arbitrary: e g)
  case Nil
  then show ?case by simp
next
  case (Cons p acts)
  obtain a r where p: "p = (a, r)" by (cases p)
  obtain e1 evs out where st: "env_step e a r = (e1, evs, out)" by (cases "env_step e a r") auto
  have nd: "\<not> env_done e"
  proof
    assume ed: "env_done e"
    then have "env_steps e (p # acts) = (e, Inr ())" by (rule env_steps_done)
    with Cons.prems(1) have "e' = e" by simp
    with ed Cons.prems(2) show False by simp
  qed
  from Cons.prems(4) obtain d where d: "turn (dir g) a = Inr d" "d \<in> set DIRS"
    using turn_in_DIRS by blast
  from env_step_dir [OF nd Cons.prems(3) d(1) st]
  obtain g1 where g1: "env_game e1 = Some g1" "dir g1 = d" by blast
  from Cons.prems(1) st have rest: "env_steps e1 acts = (e', Inr ())"
    by (cases out) (simp_all add: p)
  from Cons.IH [OF rest Cons.prems(2) g1(1)] d(2) g1(2)
  obtain g' where "env_game e' = Some g'" "turns d (map fst acts) = Inr (dir g')"
    by auto
  then show ?case using d(1) by (simp add: p)
qed

lemma turns_four: "d \<in> set DIRS \<Longrightarrow>
  turns d [0, 0, 0, 0] = Inr d \<and> turns d [0] \<noteq> Inr d \<and> turns d [0, 0] \<noteq> Inr d
  \<and> turns d [0, 0, 0] \<noteq> Inr d"
  by (auto simp: DIRS_def turn_right_table)

text \<open>
  C9, as stated, fails: from the state that \<^verbatim>\<open>reset\<close> produces (here with both
  random draws at their smallest value), heading Right, the actions
  \<open>[0, 0, 0, 0]\<close> leave the heading Up. The first two steps turn the snake Down and
  Left, the third turns it Up into its own third segment and terminates the game,
  and the fourth call is ignored.
\<close>

theorem four_right_turns_counterexample:
  "env_reset env_crashed 0 0 = (env_fresh, Inr (board_fresh, 0, False))
   \<and> map_option dir (env_game env_fresh) = Some (1, 0)
   \<and> env_steps env_fresh [(0, 0), (0, 0), (0, 0), (0, 0)] = (env_crashed, Inr ())
   \<and> map_option dir (env_game env_crashed) = Some (0, - 1)
   \<and> map_option dir (env_game env_crashed) \<noteq> Some (1, 0)"
  by code_simp

text \<open>
  C9, amended. The heading update that \<^verbatim>\<open>SnakeEnv.step\<close> applies with action 0 is
  a cyclic permutation of order 4 of the headings: from Right it gives Down, Left,
  Up and Right again, and from every heading four applications, and no fewer, give
  the heading back. A call of \<^verbatim>\<open>step\<close> with action 0 applies this update once to
  the heading of the game when the environment is not terminated.
\<close>

theorem four_right_turns_cycle:
  "turns (1, 0) [0] = Inr (0, 1) \<and> turns (1, 0) [0, 0] = Inr (- 1, 0)
   \<and> turns (1, 0) [0, 0, 0] = Inr (0, - 1) \<and> turns (1, 0) [0, 0, 0, 0] = Inr (1, 0)
   \<and> (d \<in> set DIRS \<longrightarrow>
        turns d [0, 0, 0, 0] = Inr d \<and> turns d [0] \<noteq> Inr d \<and> turns d [0, 0] \<noteq> Inr d
        \<and> turns d [0, 0, 0] \<noteq> Inr d)
   \<and> (\<not> env_done e \<and> env_game e = Some g \<and> dir g \<in> set DIRS
        \<and> env_step e 0 raw = (e', evs, out)
      \<longrightarrow> (\<exists>g'. env_game e' = Some g' \<and> turn (dir g) 0 = Inr (dir g')))"
proof -
  have a: "turns (1, 0) [0] = Inr (0, 1) \<and> turns (1, 0) [0, 0] = Inr (- 1, 0)
   \<and> turns (1, 0) [0, 0, 0] = Inr (0, - 1) \<and> turns (1, 0) [0, 0, 0, 0] = Inr (1, 0)"
    by (simp add: turn_right_table)
  have c: "\<not> env_done e \<and> env_game e = Some g \<and> dir g \<in> set DIRS
        \<and> env_step e 0 raw = (e', evs, out)
      \<longrightarrow> (\<exists>g'. env_game e' = Some g' \<and> turn (dir g) 0 = Inr (dir g'))"
  proof
    assume h: "\<not> env_done e \<and> env_game e = Some g \<and> dir g \<in> set DIRS
        \<and> env_step e 0 raw = (e', evs, out)"
    then obtain d' where d': "turn (dir g) 0 = Inr d'" using turn_in_DIRS by blast
    with h obtain g' where "env_game e' = Some g'" "dir g' = d'" using env_step_dir by blast
    with d' show "\<exists>g'. env_game e' = Some g' \<and> turn (dir g) 0 = Inr (dir g')" by auto
  qed
  from a turns_four [of d] c show ?thesis by blast
qed

theorem four_right_turns_cycle_witness:
  "(0, 1) \<in> set DIRS \<and> turns (0, 1) [0, 0, 0, 0] = Inr (0, 1)
   \<and> turns (0, 1) [0, 0, 0] \<noteq> Inr (0, 1)
   \<and> env_steps env_fresh [(0, 0), (0, 0)] = (env_pre_crash, Inr ())
   \<and> \<not> env_done env_pre_crash \<and> env_game env_pre_crash = Some g_pre_crash
   \<and> dir g_pre_crash \<in> set DIRS
   \<and> env_step env_pre_crash 0 0 = (env_crashed, [], Inr (Some (board_crashed, - 100, True)))
   \<and> (\<exists>g'. env_game env_crashed = Some g' \<and> turn (dir g_pre_crash) 0 = Inr (dir g'))"
proof -
  have m: "(0, 1) \<in> set DIRS" by (simp add: DIRS_def)
  have r: "env_steps env_fresh [(0, 0), (0, 0)] = (env_pre_crash, Inr ())" by code_simp
  have nd: "\<not> env_done env_pre_crash" and g: "env_game env_pre_crash = Some g_pre_crash"
    by (simp_all add: env_pre_crash_def)
  have dg: "dir g_pre_crash \<in> set DIRS" by (simp add: g_pre_crash_def DIRS_def)
  from four_right_turns_cycle [where d = "(0, 1)" and e = env_pre_crash and g = g_pre_crash
      and raw = 0 and e' = env_crashed and evs = "[]"
      and out = "Inr (Some (board_crashed, - 100, True))"]
    m nd g dg env_step_crash_example
  have "turns (0, 1) [0, 0, 0, 0] = Inr (0, 1) \<and> turns (0, 1) [0, 0, 0] \<noteq> Inr (0, 1)
     \<and> (\<exists>g'. env_game env_crashed = Some g' \<and> turn (dir g_pre_crash) 0 = Inr (dir g'))"
    by blast
  with m r nd g dg env_step_crash_example show ?thesis by blast
qed

end
